theory Spec2Isabelle
  imports
    Main
    "HOL-Library.AList"
    "HOL-Library.Char_ord"
    "HOL-Library.List_Lexorder"
    "HOL-Library.Product_Lexorder"
    "HOL-Library.Multiset"
begin

section \<open>Data model\<close>

text \<open>
  \<^verbatim>\<open>app/models/schemas.py\<close>: \<^verbatim>\<open>class EventStatus(str, Enum)\<close> with its five members and
  their string values.
\<close>

datatype EventStatus = PENDING | SCHEDULED | PROCESSING | COMPLETED | FAILED

fun status_value :: "EventStatus \<Rightarrow> string" where
  "status_value PENDING = ''pending''"
| "status_value SCHEDULED = ''scheduled''"
| "status_value PROCESSING = ''processing''"
| "status_value COMPLETED = ''completed''"
| "status_value FAILED = ''failed''"

text \<open>
  A \<^verbatim>\<open>datetime\<close> is an integer count of microseconds (the resolution of Python's
  \<^verbatim>\<open>datetime\<close>); \<^verbatim>\<open>Dict[str, Any]\<close> payloads are opaque to the engine and are kept as
  association lists. Every clock reading (\<^verbatim>\<open>datetime.now()\<close>, \<^verbatim>\<open>datetime.utcnow()\<close>) and
  every \<^verbatim>\<open>uuid.uuid4()\<close> is a parameter of the function that makes the call.
\<close>

type_synonym datetime = int
type_synonym document = "(string \<times> string) list"

text \<open>
  The Python values the scheduler hands to the Redis client: plain strings, the
  \<^verbatim>\<open>isoformat()\<close> of a datetime (a string too), and the payload dictionaries.
\<close>

datatype redis_value = Str string | Iso datetime | Doc document

type_synonym redis_hash = "(string \<times> redis_value) list"

record ScheduleEventRequest =
  event_type :: string
  content :: document
  scheduled_time :: datetime
  metadata :: document

record ScheduleEventResponse =
  resp_event_id :: string
  resp_status :: EventStatus
  resp_scheduled_time :: datetime

text \<open>
  The exceptions of the modelled paths: \<^verbatim>\<open>ValueError\<close> from the request validator,
  \<^verbatim>\<open>redis.DataError\<close> and \<^verbatim>\<open>AttributeError\<close> from the calls into the Redis client.
\<close>

datatype error = ValueError | DataError | AttributeError

section \<open>The Redis commands the services call\<close>

text \<open>
  The Redis server is an external collaborator; each command is modelled by its
  documented effect, and a command that reaches the server is taken to succeed (no
  connection errors). A hash key exists exactly when its hash has at least one field.
\<close>

type_synonym hash_space = "(string \<times> redis_hash) list"
type_synonym zset = "(string \<times> int) list"

definition hgetall :: "hash_space \<Rightarrow> string \<Rightarrow> redis_hash" where
  "hgetall db key = (case map_of db key of None \<Rightarrow> [] | Some h \<Rightarrow> h)"

definition redis_exists :: "hash_space \<Rightarrow> string \<Rightarrow> bool" where
  "redis_exists db key = (hgetall db key \<noteq> [])"

fun hset_fields :: "(string \<times> redis_value) list \<Rightarrow> redis_hash \<Rightarrow> redis_hash" where
  "hset_fields [] h = h"
| "hset_fields ((f, v) # fvs) h = hset_fields fvs (AList.update f v h)"

definition hset :: "string \<Rightarrow> (string \<times> redis_value) list \<Rightarrow> hash_space \<Rightarrow> hash_space" where
  "hset key fvs db = AList.update key (hset_fields fvs (hgetall db key)) db"

definition redis_delete :: "string \<Rightarrow> hash_space \<Rightarrow> hash_space" where
  "redis_delete key db = AList.delete key db"

definition zadd :: "string \<Rightarrow> int \<Rightarrow> zset \<Rightarrow> zset" where
  "zadd member score z = AList.update member score z"

fun zrem :: "string list \<Rightarrow> zset \<Rightarrow> zset" where
  "zrem [] z = z"
| "zrem (m # ms) z = zrem ms (AList.delete m z)"

text \<open>
  \<^verbatim>\<open>ZRANGEBYSCORE key min max LIMIT start num\<close>: the entries whose score lies in
  \<open>[min, max]\<close>, ordered by score and, among equal scores, by the byte order of the
  member; \<open>start\<close> entries are skipped and \<open>num\<close> are returned, a negative \<open>num\<close>
  meaning all of them and a negative \<open>start\<close> none.
\<close>

definition zrange_entries :: "zset \<Rightarrow> int \<Rightarrow> int \<Rightarrow> int \<Rightarrow> int \<Rightarrow> (string \<times> int) list" where
  "zrange_entries z lo hi start num =
     (let hits = sort_key (\<lambda>(m, s). (s, m)) (filter (\<lambda>(m, s). lo \<le> s \<and> s \<le> hi) z)
      in if start < 0 then []
         else if num < 0 then drop (nat start) hits
         else take (nat num) (drop (nat start) hits))"

definition zrangebyscore :: "zset \<Rightarrow> int \<Rightarrow> int \<Rightarrow> int \<Rightarrow> int \<Rightarrow> string list" where
  "zrangebyscore z lo hi start num = map fst (zrange_entries z lo hi start num)"

subsection \<open>The two ways the scheduler calls \<^verbatim>\<open>hset\<close> of the Python client\<close>

text \<open>
  The client (\<^verbatim>\<open>redis>=5.2.0\<close> in \<^verbatim>\<open>setup.py\<close>) declares
  \<^verbatim>\<open>hset(name, key=None, value=None, mapping=None, items=None)\<close> and encodes every
  argument before it sends the command.

  \<^verbatim>\<open>hset(name, mapping=d)\<close>: the encoder accepts bytes, strings and numbers; for any other
  value, a \<^verbatim>\<open>dict\<close> among them, it raises \<^verbatim>\<open>DataError\<close>, and so does an empty mapping.
  Nothing has been sent at that point.
\<close>

fun encodable :: "redis_value \<Rightarrow> bool" where
  "encodable (Str x) = True"
| "encodable (Iso t) = True"
| "encodable (Doc d) = False"

definition hset_mapping ::
  "string \<Rightarrow> (string \<times> redis_value) list \<Rightarrow> hash_space \<Rightarrow> error + hash_space" where
  "hset_mapping name mapping db =
     (if mapping \<noteq> [] \<and> list_all (\<lambda>(f, v). encodable v) mapping
      then Inr (hset name mapping db) else Inl DataError)"

text \<open>
  \<^verbatim>\<open>hset(name, "status", v, "updated_at", t)\<close>: five positional arguments, so the string
  \<^verbatim>\<open>"updated_at"\<close> is bound to \<^verbatim>\<open>mapping\<close> and the timestamp to \<^verbatim>\<open>items\<close>. The client
  then evaluates \<^verbatim>\<open>mapping.items()\<close> on that string, which raises \<^verbatim>\<open>AttributeError\<close>
  before any command is sent. The model covers this shape of call, with strings in all
  five places and a non-empty fourth one.
\<close>

definition hset_positional ::
  "string \<Rightarrow> string \<Rightarrow> string \<Rightarrow> string \<Rightarrow> redis_value \<Rightarrow> hash_space \<Rightarrow> error + hash_space" where
  "hset_positional name key val mapping items db = Inl AttributeError"

section \<open>SchedulerService (app/services/scheduler.py)\<close>

text \<open>
  The state the service keeps in Redis: the hashes under \<^verbatim>\<open>scheduler:job:<id>\<close> (the
  event store) and the sorted set \<^verbatim>\<open>scheduler:queue\<close> (the due-time index). The
  Prometheus counters bumped by \<^verbatim>\<open>metrics.inc_api_request\<close> are not part of it. A
  function that raises leaves the state as it was when the exception left it and returns
  the error.
\<close>

record scheduler_state =
  jobs :: hash_space
  queue :: zset

definition job_prefix :: string where
  "job_prefix = ''scheduler:job:''"

definition init_state :: scheduler_state where
  "init_state = \<lparr>jobs = [], queue = []\<rparr>"

definition event_data ::
  "string \<Rightarrow> datetime \<Rightarrow> datetime \<Rightarrow> ScheduleEventRequest \<Rightarrow> (string \<times> redis_value) list" where
  "event_data uid t_created t_updated request =
     [(''event_id'', Str uid),
      (''event_type'', Str (event_type request)),
      (''content'', Doc (content request)),
      (''scheduled_time'', Iso (scheduled_time request)),
      (''status'', Str (status_value SCHEDULED)),
      (''metadata'', Doc (metadata request)),
      (''created_at'', Iso t_created),
      (''updated_at'', Iso t_updated)]"

text \<open>
  \<^verbatim>\<open>schedule_event\<close>: the \<^verbatim>\<open>hset\<close> of the record comes first; \<^verbatim>\<open>zadd\<close> and the response
  are reached only when it returns. The score is \<^verbatim>\<open>scheduled_time.timestamp()\<close>, kept
  here in the unit of \<open>datetime\<close>.
\<close>

definition schedule_event ::
  "string \<Rightarrow> datetime \<Rightarrow> datetime \<Rightarrow> ScheduleEventRequest \<Rightarrow> scheduler_state
    \<Rightarrow> (error + ScheduleEventResponse) \<times> scheduler_state" where
  "schedule_event uid t_created t_updated request s =
     (case hset_mapping (job_prefix @ uid) (event_data uid t_created t_updated request) (jobs s) of
        Inl e \<Rightarrow> (Inl e, s)
      | Inr stored \<Rightarrow>
          (let s1 = s\<lparr>jobs := stored\<rparr>;
               s2 = s1\<lparr>queue := zadd uid (scheduled_time request) (queue s1)\<rparr>
           in (Inr \<lparr>resp_event_id = uid, resp_status = SCHEDULED,
                    resp_scheduled_time = scheduled_time request\<rparr>, s2)))"

definition get_event :: "scheduler_state \<Rightarrow> string \<Rightarrow> redis_hash option" where
  "get_event s event_id =
     (let event = hgetall (jobs s) (job_prefix @ event_id)
      in if event = [] then None else Some event)"

definition update_event_status ::
  "string \<Rightarrow> EventStatus \<Rightarrow> datetime \<Rightarrow> scheduler_state \<Rightarrow> (error + bool) \<times> scheduler_state" where
  "update_event_status event_id status now s =
     (if \<not> redis_exists (jobs s) (job_prefix @ event_id) then (Inr False, s)
      else (case hset_positional (job_prefix @ event_id) ''status'' (status_value status)
                   ''updated_at'' (Iso now) (jobs s) of
              Inl e \<Rightarrow> (Inl e, s)
            | Inr stored \<Rightarrow> (Inr True, s\<lparr>jobs := stored\<rparr>)))"

definition get_pending_events :: "datetime \<Rightarrow> int \<Rightarrow> scheduler_state \<Rightarrow> redis_hash list" where
  "get_pending_events now limit s =
     (let event_ids = zrangebyscore (queue s) 0 now 0 limit
      in if event_ids = [] then []
         else filter (\<lambda>event. event \<noteq> [])
                (map (\<lambda>event_id. hgetall (jobs s) (job_prefix @ event_id)) event_ids))"

fun delete_jobs :: "string list \<Rightarrow> hash_space \<Rightarrow> hash_space" where
  "delete_jobs [] db = db"
| "delete_jobs (event_id # event_ids) db =
     delete_jobs event_ids (redis_delete (job_prefix @ event_id) db)"

definition remove_completed_events :: "string list \<Rightarrow> scheduler_state \<Rightarrow> scheduler_state" where
  "remove_completed_events event_ids s =
     (let s1 = (if event_ids \<noteq> [] then s\<lparr>queue := zrem event_ids (queue s)\<rparr> else s)
      in s1\<lparr>jobs := delete_jobs event_ids (jobs s1)\<rparr>)"

text \<open>
  \<^verbatim>\<open>ScheduleEventRequest.validate_scheduled_time\<close> runs when the request object is built,
  before the router \<^verbatim>\<open>POST /events\<close> hands it to the service; an exception of the
  service reaches the caller as an HTTP error that carries it.
\<close>

definition validate_scheduled_time :: "datetime \<Rightarrow> datetime \<Rightarrow> error + datetime" where
  "validate_scheduled_time now v = (if v \<le> now then Inl ValueError else Inr v)"

definition route_schedule_event ::
  "datetime \<Rightarrow> string \<Rightarrow> datetime \<Rightarrow> datetime \<Rightarrow> ScheduleEventRequest \<Rightarrow> scheduler_state
    \<Rightarrow> (error + ScheduleEventResponse) \<times> scheduler_state" where
  "route_schedule_event now uid t_created t_updated request s =
     (case validate_scheduled_time now (scheduled_time request) of
        Inl e \<Rightarrow> (Inl e, s)
      | Inr v \<Rightarrow> schedule_event uid t_created t_updated request s)"





definition in_queue :: "scheduler_state \<Rightarrow> string \<Rightarrow> bool" where
  "in_queue s event_id = (map_of (queue s) event_id \<noteq> None)"

text \<open>The value stored under one field of an event's record, if the event exists.\<close>

definition event_field :: "scheduler_state \<Rightarrow> string \<Rightarrow> string \<Rightarrow> redis_value option" where
  "event_field s event_id field =
     (case get_event s event_id of None \<Rightarrow> None | Some event \<Rightarrow> map_of event field)"


subsection \<open>Sample data\<close>

text \<open>
  A request; the record of an event as Redis holds it (every value a string); a state
  that holds event \<^verbatim>\<open>a\<close>, scheduled for time 20; a state with a scheduled event \<^verbatim>\<open>a\<close> and a
  completed event \<^verbatim>\<open>c\<close>; a state where \<^verbatim>\<open>b\<close> was queued before \<^verbatim>\<open>a\<close> for the same time;
  and a state whose queue holds an identifier, \<^verbatim>\<open>ghost\<close>, that has no record.
\<close>

definition demo_request :: ScheduleEventRequest where
  "demo_request = \<lparr>event_type = ''render'', content = [(''video_id'', ''abc'')],
                    scheduled_time = 20, metadata = []\<rparr>"

definition stored_record :: "string \<Rightarrow> EventStatus \<Rightarrow> redis_hash" where
  "stored_record uid st =
     [(''event_id'', Str uid),
      (''event_type'', Str ''render''),
      (''content'', Str ''{}''),
      (''scheduled_time'', Iso 20),
      (''status'', Str (status_value st)),
      (''metadata'', Str ''{}''),
      (''created_at'', Iso 10),
      (''updated_at'', Iso 10)]"

definition demo_state :: scheduler_state where
  "demo_state =
     \<lparr>jobs = [(''scheduler:job:a'', stored_record ''a'' SCHEDULED)], queue = zadd ''a'' 20 []\<rparr>"


definition tie_state :: scheduler_state where
  "tie_state =
     \<lparr>jobs = [(''scheduler:job:b'', stored_record ''b'' SCHEDULED),
              (''scheduler:job:a'', stored_record ''a'' SCHEDULED)],
      queue = zadd ''a'' 20 (zadd ''b'' 20 [])\<rparr>"

definition dangling_state :: scheduler_state where
  "dangling_state = demo_state\<lparr>queue := zadd ''ghost'' 3 (queue demo_state)\<rparr>"

section \<open>VideoRenderService (app/services/video_render.py)\<close>

text \<open>
  The dispatcher keeps each event as a JSON string under the key \<^verbatim>\<open>event:<id>\<close>; the
  JSON round trip through \<^verbatim>\<open>event.json()\<close> and \<^verbatim>\<open>RenderEvent(**json.loads(...))\<close> is the
  identity on the record.
\<close>

record RenderEvent =
  event_id :: string
  event_type :: string
  content :: document
  scheduled_time :: datetime
  status :: EventStatus
  metadata :: document
  created_at :: datetime
  updated_at :: datetime

type_synonym event_space = "(string \<times> RenderEvent) list"

definition redis_get :: "event_space \<Rightarrow> string \<Rightarrow> RenderEvent option" where
  "redis_get db key = map_of db key"

definition redis_set :: "string \<Rightarrow> RenderEvent \<Rightarrow> event_space \<Rightarrow> event_space" where
  "redis_set key v db = AList.update key v db"

text \<open>\<^verbatim>\<open>KEYS prefix*\<close>: every key that starts with the prefix, each once.\<close>

definition redis_keys :: "string \<Rightarrow> event_space \<Rightarrow> string list" where
  "redis_keys prefix db =
     remdups (filter (\<lambda>key. take (length prefix) key = prefix) (map fst db))"

text \<open>
  The \<^verbatim>\<open>try\<close> block of \<^verbatim>\<open>_process_due_events\<close> for an event that passed the test. It
  stores the event as \<^verbatim>\<open>processing\<close>; the next statement,
  \<^verbatim>\<open>self.kafka_producer.send(settings.KAFKA_TOPIC, ...)\<close>, raises \<^verbatim>\<open>AttributeError\<close> while
  its arguments are evaluated, because \<^verbatim>\<open>Settings\<close> in \<^verbatim>\<open>app/core/config.py\<close> declares no
  \<^verbatim>\<open>KAFKA_TOPIC\<close>; the \<^verbatim>\<open>except\<close> branch then stores the event as \<^verbatim>\<open>failed\<close>. The
  statements after the send are never reached.
\<close>

definition dispatch :: "string \<Rightarrow> RenderEvent \<Rightarrow> event_space \<Rightarrow> event_space" where
  "dispatch event_key event db =
     (let event1 = event\<lparr>status := PROCESSING\<rparr>;
          db1 = redis_set event_key event1 db;
          event2 = event1\<lparr>status := FAILED\<rparr>
      in redis_set event_key event2 db1)"

definition process_event :: "datetime \<Rightarrow> string \<Rightarrow> event_space \<Rightarrow> event_space" where
  "process_event now event_key db =
     (case redis_get db event_key of
        None \<Rightarrow> db
      | Some event \<Rightarrow>
          if RenderEvent.scheduled_time event \<le> now \<and> status event = PENDING
          then dispatch event_key event db
          else db)"

fun process_keys :: "datetime \<Rightarrow> string list \<Rightarrow> event_space \<Rightarrow> event_space" where
  "process_keys now [] db = db"
| "process_keys now (event_key # events) db =
     process_keys now events (process_event now event_key db)"

definition process_due_events :: "datetime \<Rightarrow> event_space \<Rightarrow> event_space" where
  "process_due_events now db = process_keys now (redis_keys ''event:'' db) db"

text \<open>A sample event, due at time 20 and waiting to be dispatched.\<close>

definition demo_event :: RenderEvent where
  "demo_event = \<lparr>event_id = ''a'', event_type = ''render'', content = [(''video_id'', ''abc'')],
                  scheduled_time = 20, status = PENDING, metadata = [], created_at = 10,
                  updated_at = 10\<rparr>"

text \<open>
  What one pass of the dispatcher leaves under a key that holds \<open>ev\<close>, used to state what
  \<open>process_due_events\<close> computes.
\<close>

definition outcome :: "datetime \<Rightarrow> RenderEvent \<Rightarrow> RenderEvent" where
  "outcome now ev =
     (if RenderEvent.scheduled_time ev \<le> now \<and> status ev = PENDING
      then ev\<lparr>status := FAILED\<rparr> else ev)"

subsection \<open>Two workers on one event\<close>

text \<open>
  Several processes can run the dispatcher against the same Redis. For one event key, a
  worker's pass over it is two steps, each made of Redis commands that the server runs
  one at a time: \<open>Check\<close>, the \<^verbatim>\<open>GET\<close> and the test of due time and status on the copy
  read; and \<open>Act\<close>, the \<^verbatim>\<open>try\<close> block on that copy, for a worker whose test passed.
  \<open>held\<close> is the copy each worker has in hand, \<open>claimed\<close> the workers that entered the
  \<^verbatim>\<open>try\<close> block, in order. A schedule is the order in which the workers' steps reach
  the server.
\<close>

datatype step = Check nat | Act nat

record race_state =
  store :: event_space
  held :: "(nat \<times> RenderEvent) list"
  claimed :: "nat list"

fun worker_step :: "datetime \<Rightarrow> string \<Rightarrow> race_state \<Rightarrow> step \<Rightarrow> race_state" where
  "worker_step now event_key r (Check w) =
     (case redis_get (store r) event_key of
        None \<Rightarrow> r\<lparr>held := AList.delete w (held r)\<rparr>
      | Some event \<Rightarrow>
          if RenderEvent.scheduled_time event \<le> now \<and> status event = PENDING
          then r\<lparr>held := AList.update w event (held r)\<rparr>
          else r\<lparr>held := AList.delete w (held r)\<rparr>)"
| "worker_step now event_key r (Act w) =
     (case map_of (held r) w of
        None \<Rightarrow> r
      | Some event \<Rightarrow>
          r\<lparr>store := dispatch event_key event (store r),
            held := AList.delete w (held r),
            claimed := claimed r @ [w]\<rparr>)"

definition race_start :: race_state where
  "race_start = \<lparr>store = [(''event:a'', demo_event)], held = [], claimed = []\<rparr>"

section \<open>Facts about the Redis commands\<close>

lemma map_of_filter_fst:
  "map_of (filter (\<lambda>p. Q (fst p)) xs) k = (if Q k then map_of xs k else None)"
  by (induction xs) auto

lemma zrem_filter: "zrem ms z = filter (\<lambda>p. fst p \<notin> set ms) z"
proof (induction ms arbitrary: z)
  case Nil
  show ?case by simp
next
  case (Cons m ms)
  have "AList.delete m z = filter (\<lambda>p. fst p \<noteq> m) z"
    by (simp add: AList.delete_eq case_prod_unfold) metis
  then show ?case
    by (simp add: Cons.IH conj_commute)
qed

lemma delete_jobs_filter:
  "delete_jobs ids db = filter (\<lambda>p. fst p \<notin> (\<lambda>i. job_prefix @ i) ` set ids) db"
proof (induction ids arbitrary: db)
  case Nil
  show ?case by simp
next
  case (Cons i ids)
  have "AList.delete (job_prefix @ i) db = filter (\<lambda>p. fst p \<noteq> job_prefix @ i) db"
    by (simp add: AList.delete_eq case_prod_unfold) metis
  then show ?case
    by (simp add: Cons.IH redis_delete_def conj_commute)
qed

lemma remove_completed_events_eq:
  "remove_completed_events ids s =
     \<lparr>jobs = filter (\<lambda>p. fst p \<notin> (\<lambda>i. job_prefix @ i) ` set ids) (jobs s),
      queue = filter (\<lambda>p. fst p \<notin> set ids) (queue s)\<rparr>"
  by (cases ids) (simp_all add: remove_completed_events_def zrem_filter delete_jobs_filter)

lemma get_event_remove:
  "get_event (remove_completed_events ids s) i = (if i \<in> set ids then None else get_event s i)"
  using map_of_filter_fst [of "\<lambda>k. k \<notin> (\<lambda>i. job_prefix @ i) ` set ids" "jobs s"
      "job_prefix @ i"]
  by (auto simp add: get_event_def hgetall_def remove_completed_events_eq Let_def)


lemma remove_unknown:
  assumes h: "\<forall>i\<in>set ids. map_of (queue s) i = None \<and> map_of (jobs s) (job_prefix @ i) = None"
  shows "remove_completed_events ids s = s"
proof -
  have q: "filter (\<lambda>p. fst p \<notin> set ids) (queue s) = queue s"
    using h by (auto simp: filter_id_conv map_of_eq_None_iff)
  have j: "filter (\<lambda>p. fst p \<notin> (\<lambda>i. job_prefix @ i) ` set ids) (jobs s) = jobs s"
    using h by (force simp: filter_id_conv map_of_eq_None_iff)
  show ?thesis by (simp add: remove_completed_events_eq q j)
qed

lemma hset_mapping_event_data:
  "hset_mapping name (event_data uid tc tu request) db = Inl DataError"
  by (simp add: hset_mapping_def event_data_def)








section \<open>Scheduling\<close>

text \<open>
  Claim C5. A request whose \<^verbatim>\<open>scheduled_time\<close> is not after the current time is refused by
  the validator with a \<^verbatim>\<open>ValueError\<close>, and the service is never reached: the event store
  and the queue are exactly as before.
\<close>

theorem schedule_event_rejects_past:
  "ScheduleEventRequest.scheduled_time request \<le> now \<Longrightarrow>
     route_schedule_event now uid t_created t_updated request s = (Inl ValueError, s)"
  by (simp add: route_schedule_event_def validate_scheduled_time_def)

theorem schedule_event_rejects_past_witness:
  "ScheduleEventRequest.scheduled_time demo_request \<le> 20 \<and>
   route_schedule_event 20 ''b'' 20 20 demo_request demo_state = (Inl ValueError, demo_state)"
  using schedule_event_rejects_past [of demo_request 20 "''b''" 20 20 demo_state]
  by (simp add: demo_request_def)

text \<open>
  Claim C6, on the code. A request that passes validation reaches \<^verbatim>\<open>schedule_event\<close>,
  whose \<^verbatim>\<open>hset\<close> is given the \<^verbatim>\<open>content\<close> and \<^verbatim>\<open>metadata\<close> dictionaries as values and
  raises \<^verbatim>\<open>DataError\<close>: no record is stored, nothing is queued and no identifier is
  returned, so there is nothing for \<^verbatim>\<open>get_event\<close> to find.
\<close>

theorem valid_request_not_stored:
  "now < ScheduleEventRequest.scheduled_time request \<Longrightarrow>
     route_schedule_event now uid t_created t_updated request s = (Inl DataError, s)"
  by (simp add: route_schedule_event_def validate_scheduled_time_def schedule_event_def
      hset_mapping_event_data)

theorem valid_request_not_stored_witness:
  "10 < ScheduleEventRequest.scheduled_time demo_request \<and>
   route_schedule_event 10 ''a'' 10 10 demo_request init_state = (Inl DataError, init_state) \<and>
   get_event init_state ''a'' = None"
  using valid_request_not_stored [of 10 demo_request "''a''" 10 10 init_state]
  by (simp add: demo_request_def init_state_def get_event_def hgetall_def)

section \<open>Status updates\<close>

text \<open>
  Claim C9, on the code. For an existing event \<^verbatim>\<open>update_event_status\<close> raises
  \<^verbatim>\<open>AttributeError\<close> in its \<^verbatim>\<open>hset\<close> call and writes nothing: the status and
  \<^verbatim>\<open>updated_at\<close> stay as they were, like every other field.
\<close>

theorem update_event_status_raises:
  "get_event s eid = Some ev \<Longrightarrow>
     update_event_status eid st now s = (Inl AttributeError, s)"
  by (simp add: update_event_status_def hset_positional_def redis_exists_def get_event_def
      Let_def split: if_splits)

theorem update_event_status_raises_witness:
  "get_event demo_state ''a'' = Some (stored_record ''a'' SCHEDULED) \<and>
   update_event_status ''a'' COMPLETED 30 demo_state = (Inl AttributeError, demo_state) \<and>
   event_field demo_state ''a'' ''updated_at'' = Some (Iso 10)"
proof -
  have h: "get_event demo_state ''a'' = Some (stored_record ''a'' SCHEDULED)"
    by (simp add: demo_state_def get_event_def hgetall_def job_prefix_def stored_record_def)
  show ?thesis
    using h update_event_status_raises [OF h, of COMPLETED 30]
    by (simp add: event_field_def stored_record_def)
qed

section \<open>Cleanup\<close>

text \<open>
  Claim C8. \<^verbatim>\<open>remove_completed_events\<close> has no failing branch; running it a second time
  with the same identifiers changes nothing more; afterwards \<^verbatim>\<open>get_event\<close> finds none of
  the listed identifiers; and identifiers that are neither stored nor queued leave the
  state as it was.
\<close>

theorem remove_completed_events_idempotent:
  "remove_completed_events ids (remove_completed_events ids s) = remove_completed_events ids s \<and>
   (\<forall>i\<in>set ids. get_event (remove_completed_events ids s) i = None) \<and>
   ((\<forall>i\<in>set ids. map_of (queue s) i = None \<and> map_of (jobs s) (job_prefix @ i) = None)
      \<longrightarrow> remove_completed_events ids s = s)"
proof (intro conjI)
  show "remove_completed_events ids (remove_completed_events ids s) =
          remove_completed_events ids s"
    by (simp add: remove_completed_events_eq)
  show "\<forall>i\<in>set ids. get_event (remove_completed_events ids s) i = None"
    by (simp add: get_event_remove)
  show "(\<forall>i\<in>set ids. map_of (queue s) i = None \<and> map_of (jobs s) (job_prefix @ i) = None)
          \<longrightarrow> remove_completed_events ids s = s"
    using remove_unknown [of ids s] by blast
qed

theorem remove_completed_events_idempotent_witness:
  "get_event (remove_completed_events [''a'', ''unknown-id''] demo_state) ''a'' = None \<and>
   get_event (remove_completed_events [''a'', ''unknown-id''] demo_state) ''unknown-id'' = None \<and>
   map_of (queue demo_state) ''unknown-id'' = None \<and>
   map_of (jobs demo_state) (job_prefix @ ''unknown-id'') = None \<and>
   remove_completed_events [''unknown-id''] demo_state = demo_state"
  using remove_completed_events_idempotent [of "[''a'', ''unknown-id'']" demo_state]
    remove_completed_events_idempotent [of "[''unknown-id'']" demo_state]
  by (simp add: demo_state_def zadd_def job_prefix_def)

section \<open>The queue and the event store\<close>






section \<open>The due-events query\<close>

lemma zrange_entries_set:
  "set (zrange_entries z lo hi start num) \<subseteq> {e \<in> set z. lo \<le> snd e \<and> snd e \<le> hi}"
proof -
  let ?hits = "sort_key (\<lambda>(m, s). (s, m)) (filter (\<lambda>(m, s). lo \<le> s \<and> s \<le> hi) z)"
  have h: "set ?hits \<subseteq> {e \<in> set z. lo \<le> snd e \<and> snd e \<le> hi}"
    by auto
  have "set (drop (nat start) ?hits) \<subseteq> set ?hits"
    by (rule set_drop_subset)
  moreover have "set (take (nat num) (drop (nat start) ?hits)) \<subseteq> set ?hits"
    using set_take_subset set_drop_subset by fastforce
  ultimately show ?thesis
    using h unfolding zrange_entries_def Let_def by (auto split: if_splits)
qed

lemma zrange_entries_length:
  "0 \<le> num \<Longrightarrow> length (zrange_entries z lo hi start num) \<le> nat num"
  by (simp add: zrange_entries_def Let_def)

lemma get_pending_events_eq:
  "get_pending_events now limit s =
     filter (\<lambda>event. event \<noteq> [])
       (map (\<lambda>i. hgetall (jobs s) (job_prefix @ i)) (zrangebyscore (queue s) 0 now 0 limit))"
  by (simp add: get_pending_events_def Let_def)

lemma zrange_entries_prefix:
  "\<exists>rest. mset (zrange_entries z lo hi 0 num @ rest)
             = mset (filter (\<lambda>(m, sc). lo \<le> sc \<and> sc \<le> hi) z) \<and>
          sorted (map (\<lambda>(m, sc). (sc, m)) (zrange_entries z lo hi 0 num @ rest))"
proof -
  let ?f = "\<lambda>(m, s). (s :: int, m :: string)"
  let ?due = "filter (\<lambda>(m, sc). lo \<le> sc \<and> sc \<le> hi) z"
  let ?hits = "sort_key ?f ?due"
  let ?rest = "if num < 0 then [] else drop (nat num) ?hits"
  have e: "zrange_entries z lo hi 0 num @ ?rest = ?hits"
    by (simp add: zrange_entries_def Let_def)
  have m: "mset ?hits = mset ?due" by (rule mset_sort)
  have s: "sorted (map ?f ?hits)" by (rule sorted_sort_key)
  have "mset (zrange_entries z lo hi 0 num @ ?rest) = mset ?due \<and>
        sorted (map ?f (zrange_entries z lo hi 0 num @ ?rest))"
    using m s by (simp only: e simp_thms)
  then show ?thesis by (rule exI)
qed

lemma zrange_entries_count:
  "length (zrange_entries z lo hi 0 num) =
     (if num < 0 then length (filter (\<lambda>(m, sc). lo \<le> sc \<and> sc \<le> hi) z)
      else min (nat num) (length (filter (\<lambda>(m, sc). lo \<le> sc \<and> sc \<le> hi) z)))"
  by (simp add: zrange_entries_def Let_def min_def)

text \<open>
  Claim C7, as the code has it. The query behind \<^verbatim>\<open>get_pending_events\<close> returns the
  queue entries whose score lies between 0 and the time \<open>T\<close>, in ascending order of
  score and, among equal scores, in the byte order of the identifier: what it returns,
  followed by the entries it leaves out, is an arrangement of exactly those entries in
  that order. It returns the first \<open>N\<close> of them for a limit \<open>N \<ge> 0\<close>, all of them when
  fewer are due, and all of them for a negative limit. \<^verbatim>\<open>get_pending_events\<close> returns
  the stored records of the identifiers selected, in the same order.
\<close>

theorem due_query_order:
  "(\<exists>rest. mset (zrange_entries (queue s) 0 T 0 N @ rest)
             = mset (filter (\<lambda>(m, sc). 0 \<le> sc \<and> sc \<le> T) (queue s)) \<and>
           sorted (map (\<lambda>(m, sc). (sc, m)) (zrange_entries (queue s) 0 T 0 N @ rest))) \<and>
   length (zrange_entries (queue s) 0 T 0 N) =
     (if N < 0 then length (filter (\<lambda>(m, sc). 0 \<le> sc \<and> sc \<le> T) (queue s))
      else min (nat N) (length (filter (\<lambda>(m, sc). 0 \<le> sc \<and> sc \<le> T) (queue s)))) \<and>
   zrangebyscore (queue s) 0 T 0 N = map fst (zrange_entries (queue s) 0 T 0 N) \<and>
   get_pending_events T N s =
     filter (\<lambda>event. event \<noteq> [])
       (map (\<lambda>i. hgetall (jobs s) (job_prefix @ i)) (zrangebyscore (queue s) 0 T 0 N))"
  using zrange_entries_prefix [of "queue s" 0 T N] zrange_entries_count [of "queue s" 0 T N]
    get_pending_events_eq [of T N s]
  by (simp only: zrangebyscore_def simp_thms)

theorem due_query_order_witness:
  "zrange_entries (queue tie_state) 0 30 0 1 = [(''a'', 20)] \<and>
   filter (\<lambda>(m, sc). 0 \<le> sc \<and> sc \<le> 30) (queue tie_state) = [(''b'', 20), (''a'', 20)] \<and>
   length (zrange_entries (queue tie_state) 0 30 0 1) =
     min (nat 1) (length (filter (\<lambda>(m, sc). 0 \<le> sc \<and> sc \<le> 30) (queue tie_state))) \<and>
   get_pending_events 30 1 tie_state = [stored_record ''a'' SCHEDULED]"
proof -
  have l: "length (zrange_entries (queue tie_state) 0 30 0 1) =
     (if (1::int) < 0 then length (filter (\<lambda>(m, sc). 0 \<le> sc \<and> sc \<le> 30) (queue tie_state))
      else min (nat 1) (length (filter (\<lambda>(m, sc). 0 \<le> sc \<and> sc \<le> 30) (queue tie_state))))"
    by (rule conjunct1 [OF conjunct2 [OF due_query_order [of tie_state 30 1]]])
  have e: "zrange_entries (queue tie_state) 0 30 0 1 = [(''a'', 20)]"
    by (simp add: tie_state_def zadd_def zrange_entries_def)
  have d: "filter (\<lambda>(m, sc). 0 \<le> sc \<and> sc \<le> 30) (queue tie_state) = [(''b'', 20), (''a'', 20)]"
    by (simp add: tie_state_def zadd_def)
  have g: "get_pending_events 30 1 tie_state = [stored_record ''a'' SCHEDULED]"
    by (simp add: get_pending_events_eq zrangebyscore_def e)
       (simp add: tie_state_def hgetall_def job_prefix_def stored_record_def)
  have l': "length (zrange_entries (queue tie_state) 0 30 0 1) =
     min (nat 1) (length (filter (\<lambda>(m, sc). 0 \<le> sc \<and> sc \<le> 30) (queue tie_state)))"
    using l by simp
  show ?thesis using e d l' g by (intro conjI)
qed

text \<open>
  Claim C7 as stated fails in three ways: \<^verbatim>\<open>b\<close> was queued before \<^verbatim>\<open>a\<close> for the same
  time and the query returns \<^verbatim>\<open>a\<close> first; an entry with a negative score is not returned
  although its score is below the time asked for; and with the limit \<open>-1\<close> the query
  returns two entries.
\<close>

theorem ties_follow_member_order:
  "map fst (queue tie_state) = [''b'', ''a''] \<and>
   zrangebyscore (queue tie_state) 0 30 0 100 = [''a'', ''b''] \<and>
   get_pending_events 30 100 tie_state =
     [stored_record ''a'' SCHEDULED, stored_record ''b'' SCHEDULED] \<and>
   zrangebyscore (zadd ''old'' (- 5) []) 0 30 0 100 = [] \<and>
   zrangebyscore (queue tie_state) 0 30 0 (- 1) = [''a'', ''b'']"
  by (simp add: tie_state_def zadd_def zrange_entries_def get_pending_events_eq zrangebyscore_def
      hgetall_def job_prefix_def stored_record_def)

text \<open>
  Claim C10. \<^verbatim>\<open>get_pending_events\<close> has no failing branch. Every record it returns is
  non-empty and is the stored record of an identifier in the queue, so an identifier
  whose record is missing contributes nothing; and for a limit \<open>N \<ge> 0\<close> the result has
  at most \<open>N\<close> records.
\<close>

theorem get_pending_events_skips_dangling:
  "(\<forall>ev\<in>set (get_pending_events now limit s).
      ev \<noteq> [] \<and> (\<exists>i. in_queue s i \<and> get_event s i = Some ev)) \<and>
   (0 \<le> limit \<longrightarrow> length (get_pending_events now limit s) \<le> nat limit)"
proof (intro conjI ballI impI)
  fix ev
  assume "ev \<in> set (get_pending_events now limit s)"
  then show "ev \<noteq> []" by (simp add: get_pending_events_eq)
next
  fix ev
  assume a: "ev \<in> set (get_pending_events now limit s)"
  then have ne: "ev \<noteq> []" by (simp add: get_pending_events_eq)
  from a obtain e where e: "e \<in> set (zrange_entries (queue s) 0 now 0 limit)"
    and ev: "ev = hgetall (jobs s) (job_prefix @ fst e)"
    by (auto simp add: get_pending_events_eq zrangebyscore_def)
  have "e \<in> set (queue s)" using e zrange_entries_set [of "queue s" 0 now 0 limit] by blast
  then have "fst e \<in> fst ` set (queue s)" by (rule imageI)
  then have q: "in_queue s (fst e)" by (simp add: in_queue_def map_of_eq_None_iff)
  have "get_event s (fst e) = Some ev" using ne ev by (simp add: get_event_def)
  with q show "\<exists>i. in_queue s i \<and> get_event s i = Some ev" by blast
next
  assume l: "0 \<le> limit"
  have "length (get_pending_events now limit s) \<le> length (zrange_entries (queue s) 0 now 0 limit)"
    using length_filter_le [of "\<lambda>event. event \<noteq> []"
        "map (\<lambda>i. hgetall (jobs s) (job_prefix @ i)) (zrangebyscore (queue s) 0 now 0 limit)"]
    by (simp add: get_pending_events_eq zrangebyscore_def)
  also have "\<dots> \<le> nat limit" using l by (rule zrange_entries_length)
  finally show "length (get_pending_events now limit s) \<le> nat limit" .
qed

theorem get_pending_events_skips_dangling_witness:
  "in_queue dangling_state ''ghost'' \<and> get_event dangling_state ''ghost'' = None \<and>
   zrangebyscore (queue dangling_state) 0 30 0 5 = [''ghost'', ''a''] \<and>
   get_pending_events 30 5 dangling_state = [stored_record ''a'' SCHEDULED] \<and>
   in_queue dangling_state ''a'' \<and>
   get_event dangling_state ''a'' = Some (stored_record ''a'' SCHEDULED) \<and>
   (0::int) \<le> 5 \<and> length (get_pending_events 30 5 dangling_state) \<le> nat 5"
  using get_pending_events_skips_dangling [of 30 5 dangling_state]
  by (simp add: dangling_state_def demo_state_def zadd_def zrange_entries_def
      get_pending_events_eq zrangebyscore_def hgetall_def job_prefix_def stored_record_def
      in_queue_def get_event_def)

section \<open>The dispatcher pass\<close>

lemma map_of_process_event:
  "map_of (process_event now key db) k =
     (if k = key then map_option (outcome now) (map_of db key) else map_of db k)"
  by (simp add: process_event_def dispatch_def redis_get_def redis_set_def outcome_def
      update_conv' Let_def split: option.splits)

lemma map_of_process_keys:
  "distinct ks \<Longrightarrow>
     map_of (process_keys now ks db) k =
       (if k \<in> set ks then map_option (outcome now) (map_of db k) else map_of db k)"
proof (induction ks arbitrary: db)
  case Nil
  show ?case by simp
next
  case (Cons key ks)
  then have d: "distinct ks" and n: "key \<notin> set ks" by simp_all
  show ?case
    using n by (auto simp add: Cons.IH [OF d] map_of_process_event)
qed

lemma redis_keys_member:
  "map_of db k = Some ev \<Longrightarrow> take (length p) k = p \<Longrightarrow> k \<in> set (redis_keys p db)"
  by (auto simp add: redis_keys_def dest: map_of_SomeD intro: rev_image_eqI)

lemma redis_get_process_due_events:
  "redis_get (process_due_events now db) k =
     (if k \<in> set (redis_keys ''event:'' db)
      then map_option (outcome now) (redis_get db k) else redis_get db k)"
  by (simp add: process_due_events_def map_of_process_keys redis_keys_def redis_get_def)

lemma not_pending_untouched:
  "redis_get db key = Some ev \<Longrightarrow> status ev \<noteq> PENDING \<Longrightarrow>
     redis_get (process_due_events now db) key = Some ev"
  by (simp add: redis_get_process_due_events outcome_def)


text \<open>
  Claim C3, as the code has it. The publish of a due, pending event fails, and the pass
  stores the event with status \<^verbatim>\<open>failed\<close> and every other field as it was: there is no
  attempt count, no retry budget and no return to \<^verbatim>\<open>scheduled\<close>. A later pass leaves the
  failed event alone.
\<close>

theorem failed_publish_marks_failed:
  assumes "redis_get db key = Some ev" and "take 6 key = ''event:''"
    and "RenderEvent.scheduled_time ev \<le> now" and "status ev = PENDING"
  shows "redis_get (process_due_events now db) key = Some (ev\<lparr>status := FAILED\<rparr>) \<and>
         redis_get (process_due_events now' (process_due_events now db)) key
           = Some (ev\<lparr>status := FAILED\<rparr>)"
proof -
  have "key \<in> set (redis_keys ''event:'' db)"
    using assms(1,2) redis_keys_member [of db key ev "''event:''"]
    by (simp add: redis_get_def eval_nat_numeral)
  then have first:
    "redis_get (process_due_events now db) key = Some (ev\<lparr>status := FAILED\<rparr>)"
    using assms by (simp add: redis_get_process_due_events outcome_def)
  have "status (ev\<lparr>status := FAILED\<rparr>) \<noteq> PENDING" by simp
  with first show ?thesis
    using not_pending_untouched [of "process_due_events now db" key "ev\<lparr>status := FAILED\<rparr>"]
    by simp
qed

theorem failed_publish_marks_failed_witness:
  "redis_get [(''event:a'', demo_event)] ''event:a'' = Some demo_event \<and>
   take 6 ''event:a'' = ''event:'' \<and>
   RenderEvent.scheduled_time demo_event \<le> 30 \<and>
   status demo_event = PENDING \<and>
   redis_get (process_due_events 30 [(''event:a'', demo_event)]) ''event:a''
     = Some (demo_event\<lparr>status := FAILED\<rparr>) \<and>
   redis_get (process_due_events 40 (process_due_events 30 [(''event:a'', demo_event)])) ''event:a''
     = Some (demo_event\<lparr>status := FAILED\<rparr>)"
  using failed_publish_marks_failed [of "[(''event:a'', demo_event)]" "''event:a''" demo_event 30 40]
  by (simp add: redis_get_def demo_event_def)

text \<open>
  Claim C3 as stated fails: the first failed publish of a pending event already ends in
  \<^verbatim>\<open>failed\<close>.
\<close>

theorem first_failure_is_final:
  "status demo_event = PENDING \<and>
   map_option status
     (redis_get (process_due_events 30 [(''event:a'', demo_event)]) ''event:a'') = Some FAILED"
  by (simp add: process_due_events_def redis_keys_def process_event_def dispatch_def redis_get_def
      redis_set_def demo_event_def)

section \<open>Terminal states\<close>



section \<open>Racing workers\<close>

lemma check_then_act:
  "store (worker_step now key (worker_step now key r (Check w)) (Act w))
     = process_event now key (store r)"
  by (simp add: process_event_def update_conv' delete_conv' split: option.splits)

text \<open>
  Claim C1, on the code. Two workers pass over the due, pending event \<^verbatim>\<open>event:a\<close>. When
  both read the event before either writes it, both pass the test and both enter the
  \<^verbatim>\<open>try\<close> block, and the store ends as after a single pass; when one worker finishes
  before the other starts, only the first enters.
\<close>

theorem racing_workers_both_claim:
  "claimed (foldl (worker_step 30 ''event:a'') race_start [Check 0, Check 1, Act 0, Act 1])
     = [0, 1] \<and>
   claimed (foldl (worker_step 30 ''event:a'') race_start [Check 0, Act 0, Check 1, Act 1])
     = [0] \<and>
   store (foldl (worker_step 30 ''event:a'') race_start [Check 0, Check 1, Act 0, Act 1])
     = process_due_events 30 (store race_start)"
  by (simp add: race_start_def redis_get_def redis_set_def dispatch_def demo_event_def
      process_due_events_def redis_keys_def process_event_def)

end
